theory Spec2Isabelle
  imports Complex_Main
begin

section \<open>Error objects and the error-handling middleware (middleware/errorHandler.js)\<close>

text \<open>
  JavaScript error objects are duck-typed: \<open>errorHandler\<close> looks at the prototype chain
  (\<open>instanceof\<close>) and at the properties \<open>name\<close>, \<open>message\<close>, \<open>statusCode\<close>,
  \<open>type\<close>, \<open>errors\<close>, \<open>fields\<close> (here \<open>fkFields\<close>), \<open>code\<close> and \<open>stack\<close>. A property that may be
  \<open>undefined\<close> is an \<open>option\<close>.
\<close>

datatype errClass =
    ValidationError | UniqueConstraintError | ForeignKeyConstraintError
  | AppErrorClass | OtherError

record errorItem =
  path :: string
  itemMessage :: string

record jsError =
  cls :: errClass
  name :: string
  message :: string
  statusCode :: "int option"
  type :: "string option"
  errors :: "errorItem list option"
  fkFields :: "string list"
  code :: "string option"
  stack :: "string option"

text \<open>
  \<open>class AppError extends Error\<close>: the constructor's parameters \<open>type\<close> and \<open>errors\<close>
  have the defaults \<open>'app_error'\<close> and \<open>[]\<close>, taken when the argument is missing.
  \<open>Error.captureStackTrace\<close> stores the trace text in \<open>stack\<close>: a header made of the
  name and the message, followed by the call frames, which the runtime supplies
  (the parameter \<open>frames\<close>).
\<close>

definition AppError :: "string \<Rightarrow> string \<Rightarrow> int \<Rightarrow> string option \<Rightarrow> errorItem list option \<Rightarrow> jsError" where
  "AppError frames msg sc ty errs =
     \<lparr> cls = AppErrorClass,
       name = ''AppError'',
       message = msg,
       statusCode = Some sc,
       type = Some (case ty of None \<Rightarrow> ''app_error'' | Some t \<Rightarrow> t),
       errors = Some (case errs of None \<Rightarrow> [] | Some es \<Rightarrow> es),
       fkFields = [],
       code = None,
       stack = Some ((if msg = [] then ''AppError'' else ''AppError: '' @ msg) @ frames) \<rparr>"

text \<open>The value thrown by reading a property of \<open>undefined\<close> or \<open>null\<close>.\<close>

definition TypeError :: "string \<Rightarrow> jsError" where
  "TypeError msg =
     \<lparr> cls = OtherError, name = ''TypeError'', message = msg, statusCode = None,
       type = None, errors = None, fkFields = [], code = None,
       stack = Some (''TypeError: '' @ msg) \<rparr>"

datatype fieldRef = FieldPath string | FieldList "string list"

datatype detail = FieldDetail fieldRef string | RawItem errorItem

text \<open>The JSON body \<open>{ error: { type, message, details?, stack? } }\<close> and the response.\<close>

record errorBody =
  bodyType :: string
  bodyMessage :: string
  details :: "detail list option"
  bodyStack :: "string option"

record response =
  status :: int
  body :: errorBody

text \<open>
  The tail of \<open>errorHandler\<close> (source lines 74 to 93), shared by every branch: a truthy
  \<open>err.message\<close> other than \<open>'Internal Server Error'\<close> replaces the message, \<open>details\<close>
  is present only for a non-empty list, and the stack is added when
  \<open>process.env.NODE_ENV === 'development'\<close> and \<open>err.stack\<close> is truthy.
\<close>

definition respond :: "string option \<Rightarrow> jsError \<Rightarrow> int \<Rightarrow> string \<Rightarrow> string \<Rightarrow> detail list \<Rightarrow> response" where
  "respond nodeEnv err sc errorMessage errorType errs =
     \<lparr> status = sc,
       body = \<lparr> bodyType = errorType,
                bodyMessage = (if message err \<noteq> [] \<and> message err \<noteq> ''Internal Server Error''
                               then message err else errorMessage),
                details = (if length errs > 0 then Some errs else None),
                bodyStack = (if nodeEnv = Some ''development''
                               \<and> (case stack err of None \<Rightarrow> False | Some s \<Rightarrow> s \<noteq> [])
                             then stack err else None) \<rparr> \<rparr>"

text \<open>
  \<open>errorHandler(err, req, res, next)\<close>; the result is what \<open>res.status(..).json(..)\<close>
  sends, or the exception of \<open>err.errors.map\<close> on a missing \<open>errors\<close>. In Sequelize
  \<open>UniqueConstraintError\<close> extends \<open>ValidationError\<close>, so the first \<open>instanceof\<close> holds
  for both classes.
\<close>

definition errorHandler :: "string option \<Rightarrow> jsError \<Rightarrow> jsError + response" where
  "errorHandler nodeEnv err =
     (if cls err = ValidationError \<or> cls err = UniqueConstraintError then
        (case errors err of
           None \<Rightarrow> Inl (TypeError ''Cannot read properties of undefined (reading map)'')
         | Some es \<Rightarrow> Inr (respond nodeEnv err 400 ''Validation failed'' ''validation_error''
                          (map (\<lambda>e. FieldDetail (FieldPath (path e)) (itemMessage e)) es)))
      else if cls err = UniqueConstraintError then
        (case errors err of
           None \<Rightarrow> Inl (TypeError ''Cannot read properties of undefined (reading map)'')
         | Some es \<Rightarrow> Inr (respond nodeEnv err 409 ''Duplicate entry'' ''conflict_error''
                          (map (\<lambda>e. FieldDetail (FieldPath (path e)) (itemMessage e)) es)))
      else if cls err = ForeignKeyConstraintError then
        Inr (respond nodeEnv err 400 ''Invalid reference'' ''reference_error''
               [FieldDetail (FieldList (fkFields err)) ''Referenced entity does not exist''])
      else if name err = ''JsonWebTokenError'' \<or> name err = ''TokenExpiredError'' then
        Inr (respond nodeEnv err 401
               (if name err = ''TokenExpiredError'' then ''Token expired'' else ''Invalid token'')
               ''auth_error'' [])
      else if (case statusCode err of None \<Rightarrow> False | Some sc \<Rightarrow> sc \<noteq> 0) then
        Inr (respond nodeEnv err (the (statusCode err)) (message err)
               (case type err of None \<Rightarrow> ''custom_error''
                | Some t \<Rightarrow> if t = [] then ''custom_error'' else t)
               (case errors err of None \<Rightarrow> [] | Some es \<Rightarrow> map RawItem es))
      else if code err = Some ''ECONNREFUSED'' then
        Inr (respond nodeEnv err 500 ''Database connection failed'' ''database_error'' [])
      else
        Inr (respond nodeEnv err 500 ''Internal Server Error'' ''server_error'' []))"

section \<open>The rate limiter (middleware/rateLimiter.js)\<close>

subsection \<open>Requests, configuration, outcomes\<close>

text \<open>
  Of a request the key generators read \<open>req.ip\<close> and \<open>req.user.id\<close>; \<open>user\<close> is the text
  of \<open>req.user.id\<close> when \<open>req.user\<close> is set. A template literal prints \<open>undefined\<close> for a
  missing value.
\<close>

record request =
  ip :: "string option"
  user :: "string option"

definition templ :: "string option \<Rightarrow> string" where
  "templ v = (case v of None \<Rightarrow> ''undefined'' | Some s \<Rightarrow> s)"

text \<open>
  What an exceeded handler did with \<open>(req, res, next)\<close> when it returned: passed an error
  to \<open>next\<close> (the default), wrote a response of its own, or called \<open>next()\<close> itself.
\<close>

datatype handled = PassedToNext jsError | Responded int string | Continued

text \<open>
  The options after destructuring. \<open>keyGenerator\<close> and \<open>handler\<close> are caller-supplied
  synchronous functions: each returns (\<open>Inr\<close>) or throws (\<open>Inl\<close>); what \<open>keyGenerator\<close>
  returns is kept as the text the template literal of line 42 prints. \<open>max\<close> is renamed
  \<open>max_cfg\<close>. \<open>windowMs\<close> and \<open>max\<close> are integers, as the data model of the
  specification has them, of either sign.
\<close>

record config =
  windowMs :: int
  max_cfg :: int
  keyGenerator :: "request \<Rightarrow> jsError + string"
  handler :: "request \<Rightarrow> jsError + handled"

record options =
  windowMs_opt :: "int option"
  max_opt :: "int option"
  keyGenerator_opt :: "(request \<Rightarrow> jsError + string) option"
  handler_opt :: "(request \<Rightarrow> jsError + handled) option"

datatype 'a arg = Undefined | Null | Obj 'a

definition default_keyGenerator :: "request \<Rightarrow> jsError + string" where
  "default_keyGenerator req = Inr (templ (ip req))"

definition default_handler :: "string \<Rightarrow> request \<Rightarrow> jsError + handled" where
  "default_handler frames req =
     Inr (PassedToNext
            (AppError frames ''Too many requests, please try again later'' 429
               (Some ''rate_limit_error'') None))"

text \<open>
  \<open>rateLimiter(options = {})\<close>: the parameter default covers \<open>undefined\<close> only, so
  \<open>null\<close> reaches the destructuring, which throws. Nothing else is checked.
\<close>

definition rateLimiter :: "string \<Rightarrow> options arg \<Rightarrow> jsError + config" where
  "rateLimiter frames a =
     (case a of
        Null \<Rightarrow> Inl (TypeError ''Cannot destructure options as it is null'')
      | _ \<Rightarrow>
          (let opts = (case a of Obj ob \<Rightarrow> ob
                       | _ \<Rightarrow> \<lparr> windowMs_opt = None, max_opt = None,
                                keyGenerator_opt = None, handler_opt = None \<rparr>)
           in Inr \<lparr> windowMs = (case windowMs_opt opts of None \<Rightarrow> 60 * 1000 | Some w \<Rightarrow> w),
                    max_cfg = (case max_opt opts of None \<Rightarrow> 60 | Some m \<Rightarrow> m),
                    keyGenerator = (case keyGenerator_opt opts of
                                      None \<Rightarrow> default_keyGenerator | Some g \<Rightarrow> g),
                    handler = (case handler_opt opts of
                                 None \<Rightarrow> default_handler frames | Some h \<Rightarrow> h) \<rparr>))"

text \<open>
  The three preconfigured instances. \<open>standardLimiter\<close> is \<open>rateLimiter()\<close>.
\<close>

definition standardLimiter :: "string \<Rightarrow> jsError + config" where
  "standardLimiter frames = rateLimiter frames Undefined"


definition userLimiter :: "string \<Rightarrow> jsError + config" where
  "userLimiter frames =
     rateLimiter frames
       (Obj \<lparr> windowMs_opt = Some (60 * 1000), max_opt = Some 100,
              keyGenerator_opt =
                Some (\<lambda>req. Inr (''user:'' @ (case user req of Some u \<Rightarrow> u
                                                | None \<Rightarrow> templ (ip req)))),
              handler_opt = None \<rparr>)"

subsection \<open>The two backends\<close>

text \<open>
  The in-memory fallback: the module-level \<open>Map\<close> from keys to \<open>{ count, startTime }\<close>.
\<close>

record cacheItem =
  count :: int
  startTime :: int

text \<open>
  The shared store is outside the repository; the limiter uses \<open>GET key\<close> and the
  transaction \<open>MULTI; INCR key; EXPIRE key seconds; EXEC\<close>. It is modelled as a map from
  keys to a counter with an optional deadline (absolute, in milliseconds, on the same
  clock as \<open>Date.now()\<close>): a key is gone once the clock has passed its deadline;
  \<open>INCR\<close> starts a missing key at 1 without a deadline and leaves the deadline of a
  present key alone; \<open>EXPIRE\<close> with a positive time-to-live moves the deadline to that
  far from now, and with a non-positive one deletes the key. The store is taken to
  honour the time-to-live it is handed to the millisecond. \<open>GET\<close> replies with the
  counter's decimal text, a non-empty string (truthy, also for \<open>"0"\<close>) that \<open>parseInt\<close>
  reads back, so the reply is modelled as the integer itself, or \<open>None\<close> for \<open>null\<close>.
\<close>

record entry =
  val :: int
  deadline :: "int option"

type_synonym store = "string \<rightharpoonup> entry"

definition live :: "int \<Rightarrow> store \<Rightarrow> string \<Rightarrow> entry option" where
  "live t s k =
     (case s k of
        None \<Rightarrow> None
      | Some e \<Rightarrow> (case deadline e of
                     None \<Rightarrow> Some e
                   | Some d \<Rightarrow> if t \<le> d then Some e else None))"

definition incr :: "int \<Rightarrow> string \<Rightarrow> store \<Rightarrow> store" where
  "incr t k s =
     (case live t s k of
        None \<Rightarrow> s(k \<mapsto> \<lparr> val = 1, deadline = None \<rparr>)
      | Some e \<Rightarrow> s(k \<mapsto> e\<lparr> val := val e + 1 \<rparr>))"

definition expire :: "int \<Rightarrow> string \<Rightarrow> rat \<Rightarrow> store \<Rightarrow> store" where
  "expire t k seconds s =
     (case live t s k of
        None \<Rightarrow> s
      | Some e \<Rightarrow> if seconds \<le> 0 then s(k := None)
                  else s(k \<mapsto> e\<lparr> deadline := Some (t + \<lfloor>seconds * 1000\<rfloor>) \<rparr>))"

text \<open>
  What the surroundings contribute to one invocation: the reading of \<open>Date.now()\<close>,
  whether \<open>redisClient && redisClient.connected\<close> holds, and whether a call to the store
  fails and how: \<open>GET\<close> rejects, the transaction rejects before it reaches the store,
  or it is applied and its reply is lost.
\<close>

datatype fault = NoFault | GetFails jsError | ExecFails jsError | ExecReplyLost jsError

record env =
  now :: int
  connected :: bool
  fault :: fault

definition redis_get :: "env \<Rightarrow> string \<Rightarrow> store \<Rightarrow> jsError + int option" where
  "redis_get ev k s =
     (case fault ev of
        GetFails e \<Rightarrow> Inl e
      | _ \<Rightarrow> Inr (map_option val (live (now ev) s k)))"

definition multi_incr_expire_exec :: "env \<Rightarrow> string \<Rightarrow> rat \<Rightarrow> store \<Rightarrow> (jsError + unit) \<times> store" where
  "multi_incr_expire_exec ev k seconds s =
     (let s' = expire (now ev) k seconds (incr (now ev) k s)
      in case fault ev of
           ExecFails e \<Rightarrow> (Inl e, s)
         | ExecReplyLost e \<Rightarrow> (Inl e, s')
         | _ \<Rightarrow> (Inr (), s'))"

subsection \<open>The middleware\<close>

record world =
  inMemoryCache :: "string \<rightharpoonup> cacheItem"
  redis :: store

text \<open>
  How an invocation ends: \<open>next()\<close> on line 77 (\<open>Proceed\<close>); the handler was called and
  returned (\<open>Exceeded\<close>); or an exception reached the \<open>catch\<close>, was written to the console
  and \<open>next()\<close> was called on line 81 (\<open>FailOpen\<close>). The host's \<open>next\<close> and
  \<open>console.error\<close> do not throw.
\<close>

datatype outcome = Proceed | Exceeded handled | FailOpen jsError

definition invoke_handler :: "config \<Rightarrow> request \<Rightarrow> jsError + outcome" where
  "invoke_handler cfg req =
     (case handler cfg req of Inl e \<Rightarrow> Inl e | Inr h \<Rightarrow> Inr (Exceeded h))"

text \<open>
  The body of the \<open>try\<close> block; \<open>Inl\<close> is an exception leaving it. In the fallback
  branch \<open>cacheItem\<close> is the stored object itself when the key is present, so the reset
  of an elapsed window writes through to the map even when the handler is called
  afterwards; a fresh object reaches the map only by \<open>inMemoryCache.set\<close>.
\<close>

definition limiter_body :: "config \<Rightarrow> env \<Rightarrow> request \<Rightarrow> world \<Rightarrow> (jsError + outcome) \<times> world" where
  "limiter_body cfg ev req w =
     (case keyGenerator cfg req of
        Inl e \<Rightarrow> (Inl e, w)
      | Inr g \<Rightarrow>
          (let key = ''ratelimit:'' @ g in
           if connected ev then
             (case redis_get ev key (redis w) of
                Inl e \<Rightarrow> (Inl e, w)
              | Inr currentCount \<Rightarrow>
                  if (case currentCount of None \<Rightarrow> False | Some c \<Rightarrow> c \<ge> max_cfg cfg)
                  then (invoke_handler cfg req, w)
                  else (case multi_incr_expire_exec ev key (of_int (windowMs cfg) / 1000) (redis w) of
                          (Inl e, s') \<Rightarrow> (Inl e, w\<lparr> redis := s' \<rparr>)
                        | (Inr _, s') \<Rightarrow> (Inr Proceed, w\<lparr> redis := s' \<rparr>)))
           else
             (let found = inMemoryCache w key;
                  item = (case found of
                            None \<Rightarrow> \<lparr> count = 0, startTime = now ev \<rparr>
                          | Some c \<Rightarrow> c);
                  elapsed = (now ev - startTime item > windowMs cfg);
                  item1 = (if elapsed then \<lparr> count = 0, startTime = now ev \<rparr> else item);
                  cache1 = (if elapsed \<and> found \<noteq> None
                            then (inMemoryCache w)(key \<mapsto> item1) else inMemoryCache w)
              in if count item1 \<ge> max_cfg cfg
                 then (invoke_handler cfg req, w\<lparr> inMemoryCache := cache1 \<rparr>)
                 else (Inr Proceed,
                       w\<lparr> inMemoryCache := cache1(key \<mapsto> item1\<lparr> count := count item1 + 1 \<rparr>) \<rparr>))))"

text \<open>The function \<open>rateLimiter\<close> returns: the \<open>try\<close> block with its \<open>catch\<close>.\<close>

definition middleware :: "config \<Rightarrow> env \<Rightarrow> request \<Rightarrow> world \<Rightarrow> outcome \<times> world" where
  "middleware cfg ev req w =
     (case limiter_body cfg ev req w of
        (Inl e, w') \<Rightarrow> (FailOpen e, w')
      | (Inr out, w') \<Rightarrow> (out, w'))"

text \<open>
  A request is admitted when the middleware itself calls \<open>next()\<close>, and rejected when
  the handler was called and returned.
\<close>

fun admitted :: "outcome \<Rightarrow> bool" where
  "admitted Proceed = True"
| "admitted (FailOpen e) = True"
| "admitted (Exceeded h) = False"

text \<open>Requests are handled one at a time, in arrival order.\<close>

fun run :: "config \<Rightarrow> (env \<times> request) list \<Rightarrow> world \<Rightarrow> outcome list \<times> world" where
  "run cfg [] w = ([], w)"
| "run cfg ((ev, req) # rest) w =
     (case middleware cfg ev req w of
        (out, w') \<Rightarrow> (case run cfg rest w' of (outs, w'') \<Rightarrow> (out # outs, w'')))"

subsection \<open>Keys, traces and concrete inputs\<close>

text \<open>The key of line 42, when \<open>keyGenerator\<close> returns.\<close>

definition key_of :: "config \<Rightarrow> request \<Rightarrow> string option" where
  "key_of cfg req =
     (case keyGenerator cfg req of Inl e \<Rightarrow> None | Inr g \<Rightarrow> Some (''ratelimit:'' @ g))"

text \<open>
  An invocation at time \<open>t\<close> on the store (\<open>b\<close> true) or on the fallback, with no
  failure; and requests with their arrival times, all sent to one backend.
\<close>

definition at_time :: "bool \<Rightarrow> int \<Rightarrow> env" where
  "at_time b t = \<lparr> now = t, connected = b, fault = NoFault \<rparr>"

definition arrivals :: "bool \<Rightarrow> (int \<times> request) list \<Rightarrow> (env \<times> request) list" where
  "arrivals b trs = map (\<lambda>(t, req). (at_time b t, req)) trs"

text \<open>
  Requests of one window: all for the key \<open>k\<close>, none earlier than the first and none
  later than \<open>windowMs\<close> after it, with a handler that returns.
\<close>

definition in_window :: "config \<Rightarrow> string \<Rightarrow> (int \<times> request) list \<Rightarrow> bool" where
  "in_window cfg k trs =
     (\<forall>(t, req) \<in> set trs.
        key_of cfg req = Some k \<and> \<not> isl (handler cfg req)
        \<and> fst (hd trs) \<le> t \<and> t \<le> fst (hd trs) + windowMs cfg)"

definition burst :: "config \<Rightarrow> string \<Rightarrow> bool \<Rightarrow> (env \<times> request) list \<Rightarrow> bool" where
  "burst cfg k b evs =
     (\<forall>(ev, req) \<in> set evs.
        connected ev = b \<and> fault ev = NoFault \<and> key_of cfg req = Some k
        \<and> now (fst (hd evs)) \<le> now ev \<and> now ev \<le> now (fst (hd evs)) + windowMs cfg
        \<and> \<not> isl (handler cfg req))"

text \<open>
  The requests of a trace that fall under the key \<open>k\<close>, and the outcomes a run gives to
  them.
\<close>

definition for_key :: "config \<Rightarrow> string \<Rightarrow> (env \<times> request) list \<Rightarrow> (env \<times> request) list" where
  "for_key cfg k evs = filter (\<lambda>(ev, req). key_of cfg req = Some k) evs"

definition decisions_for :: "config \<Rightarrow> string \<Rightarrow> (env \<times> request) list \<Rightarrow> world \<Rightarrow> outcome list" where
  "decisions_for cfg k evs w =
     map snd (filter (\<lambda>((ev, req), out). key_of cfg req = Some k) (zip evs (fst (run cfg evs w))))"

text \<open>
  Concrete inputs: the state of a fresh process, a request from an address, the limiter
  \<open>rateLimiter({ windowMs: w, max: m })\<close>, an invocation during which the store fails,
  and a caller-supplied function that throws.
\<close>

definition empty_world :: world where
  "empty_world = \<lparr> inMemoryCache = Map.empty, redis = Map.empty \<rparr>"

definition from_ip :: "string \<Rightarrow> request" where
  "from_ip a = \<lparr> ip = Some a, user = None \<rparr>"

definition limiter :: "int \<Rightarrow> int \<Rightarrow> config" where
  "limiter w m = \<lparr> windowMs = w, max_cfg = m, keyGenerator = default_keyGenerator,
                   handler = default_handler [] \<rparr>"

definition failing :: "fault \<Rightarrow> int \<Rightarrow> env" where
  "failing f t = \<lparr> now = t, connected = True, fault = f \<rparr>"


section \<open>Properties\<close>

subsection \<open>One invocation\<close>

lemmas step_defs = middleware_def limiter_body_def invoke_handler_def Let_def

lemmas store_defs = redis_get_def multi_incr_expire_exec_def incr_def expire_def live_def

lemmas eval_defs = step_defs store_defs key_of_def arrivals_def in_window_def empty_world_def
  from_ip_def limiter_def default_keyGenerator_def default_handler_def templ_def at_time_def
  failing_def

lemma ttl_pos: "((of_int w :: rat) / 1000 \<le> 0) = (w \<le> 0)"
  by (simp add: divide_le_0_iff)

lemma standardLimiter_config:
  "standardLimiter frames =
     Inr \<lparr> windowMs = 60000, max_cfg = 60, keyGenerator = default_keyGenerator,
           handler = default_handler frames \<rparr>"
  by (simp add: standardLimiter_def rateLimiter_def)

lemma rateLimiter_null: "isl (rateLimiter frames Null)"
  by (simp add: rateLimiter_def)

lemma rateLimiter_limiter:
  "rateLimiter [] (Obj \<lparr> windowMs_opt = Some w, max_opt = Some m,
                         keyGenerator_opt = None, handler_opt = None \<rparr>) = Inr (limiter w m)"
  by (simp add: rateLimiter_def limiter_def)

lemma body_store:
  assumes "keyGenerator cfg req = Inr g" "connected ev"
  shows "limiter_body cfg ev req w =
    (case redis_get ev (''ratelimit:'' @ g) (redis w) of
       Inl e \<Rightarrow> (Inl e, w)
     | Inr currentCount \<Rightarrow>
         if (case currentCount of None \<Rightarrow> False | Some c \<Rightarrow> c \<ge> max_cfg cfg)
         then (invoke_handler cfg req, w)
         else (case fst (multi_incr_expire_exec ev (''ratelimit:'' @ g)
                           (of_int (windowMs cfg) / 1000) (redis w)) of
                 Inl e \<Rightarrow> Inl e | Inr u \<Rightarrow> Inr Proceed,
               w\<lparr> redis := snd (multi_incr_expire_exec ev (''ratelimit:'' @ g)
                                   (of_int (windowMs cfg) / 1000) (redis w)) \<rparr>))"
  using assms by (simp add: limiter_body_def Let_def split: sum.splits prod.splits)

lemma body_mem:
  assumes "keyGenerator cfg req = Inr g" "\<not> connected ev"
  shows "limiter_body cfg ev req w =
    (let key = ''ratelimit:'' @ g;
         found = inMemoryCache w key;
         item = (case found of None \<Rightarrow> \<lparr> count = 0, startTime = now ev \<rparr> | Some c \<Rightarrow> c);
         elapsed = (now ev - startTime item > windowMs cfg);
         item1 = (if elapsed then \<lparr> count = 0, startTime = now ev \<rparr> else item);
         cache1 = (if elapsed \<and> found \<noteq> None
                   then (inMemoryCache w)(key \<mapsto> item1) else inMemoryCache w)
     in if count item1 \<ge> max_cfg cfg
        then (invoke_handler cfg req, w\<lparr> inMemoryCache := cache1 \<rparr>)
        else (Inr Proceed,
              w\<lparr> inMemoryCache := cache1(key \<mapsto> item1\<lparr> count := count item1 + 1 \<rparr>) \<rparr>))"
  using assms by (simp add: limiter_body_def)

lemma middleware_fst:
  "fst (middleware cfg ev req w) =
     (case fst (limiter_body cfg ev req w) of Inl e \<Rightarrow> FailOpen e | Inr out \<Rightarrow> out)"
  by (simp add: middleware_def split: prod.splits sum.splits)

lemma middleware_snd: "snd (middleware cfg ev req w) = snd (limiter_body cfg ev req w)"
  by (simp add: middleware_def split: prod.splits sum.splits)

lemma mem_first:
  assumes "\<not> connected ev" "key_of cfg req = Some k" "inMemoryCache w k = None" "0 < max_cfg cfg"
  shows "middleware cfg ev req w =
           (Proceed, w\<lparr> inMemoryCache := (inMemoryCache w)(k \<mapsto> \<lparr> count = 1, startTime = now ev \<rparr>) \<rparr>)"
  using assms by (auto simp: step_defs key_of_def split: sum.splits)

lemma mem_admit:
  assumes "\<not> connected ev" "key_of cfg req = Some k" "inMemoryCache w k = Some e"
    "now ev - startTime e \<le> windowMs cfg" "count e < max_cfg cfg"
  shows "middleware cfg ev req w =
           (Proceed, w\<lparr> inMemoryCache := (inMemoryCache w)(k \<mapsto> e\<lparr> count := count e + 1 \<rparr>) \<rparr>)"
  using assms by (auto simp: step_defs key_of_def split: sum.splits)

lemma mem_reject:
  assumes "\<not> connected ev" "key_of cfg req = Some k" "inMemoryCache w k = Some e"
    "now ev - startTime e \<le> windowMs cfg" "max_cfg cfg \<le> count e" "handler cfg req = Inr h"
  shows "middleware cfg ev req w = (Exceeded h, w)"
  using assms by (auto simp: step_defs key_of_def split: sum.splits)

lemma mem_rollover:
  assumes "\<not> connected ev" "key_of cfg req = Some k" "inMemoryCache w k = Some e"
    "now ev - startTime e > windowMs cfg" "0 < max_cfg cfg"
  shows "middleware cfg ev req w =
           (Proceed, w\<lparr> inMemoryCache := (inMemoryCache w)(k \<mapsto> \<lparr> count = 0 + 1, startTime = now ev \<rparr>) \<rparr>)"
  using assms by (auto simp: step_defs key_of_def split: sum.splits)

lemma store_first:
  assumes "connected ev" "fault ev = NoFault" "key_of cfg req = Some k"
    "live (now ev) (redis w) k = None" "0 < windowMs cfg"
  shows "middleware cfg ev req w =
           (Proceed, w\<lparr> redis := (redis w)(k \<mapsto> \<lparr> val = 1, deadline = Some (now ev + windowMs cfg) \<rparr>) \<rparr>)"
  using assms
  by (auto simp: step_defs store_defs key_of_def ttl_pos split: sum.splits option.splits if_splits)

lemma store_admit:
  assumes "connected ev" "fault ev = NoFault" "key_of cfg req = Some k"
    "live (now ev) (redis w) k = Some e" "val e < max_cfg cfg" "0 < windowMs cfg"
  shows "middleware cfg ev req w =
           (Proceed, w\<lparr> redis := (redis w)(k \<mapsto> e\<lparr> val := val e + 1,
                                                    deadline := Some (now ev + windowMs cfg) \<rparr>) \<rparr>)"
  using assms
  by (auto simp: step_defs store_defs key_of_def ttl_pos split: sum.splits option.splits if_splits)

lemma store_reject:
  assumes "connected ev" "fault ev = NoFault" "key_of cfg req = Some k"
    "live (now ev) (redis w) k = Some e" "max_cfg cfg \<le> val e" "handler cfg req = Inr h"
  shows "middleware cfg ev req w = (Exceeded h, w)"
  using assms
  by (auto simp: step_defs store_defs key_of_def ttl_pos split: sum.splits option.splits if_splits)

subsection \<open>Runs\<close>

lemma fst_run_Cons:
  "fst (run cfg ((ev, req) # rest) w) =
     fst (middleware cfg ev req w) # fst (run cfg rest (snd (middleware cfg ev req w)))"
  by (simp split: prod.splits)


lemma upt_shift: "map f [0..<Suc n] = f 0 # map (\<lambda>i. f (Suc i)) [0..<n]"
  by (simp only: upt_conv_Cons[of 0 "Suc n"] map_Suc_upt[symmetric] list.map map_map comp_def)

text \<open>
  Inside a window of the fallback the \<open>i\<close>-th further request is admitted exactly when
  the count it finds is below \<open>max\<close>.
\<close>

lemma mem_burst:
  assumes "inMemoryCache w k = Some e"
    and "\<forall>(ev, req) \<in> set evs. \<not> connected ev \<and> key_of cfg req = Some k
           \<and> now ev - startTime e \<le> windowMs cfg \<and> \<not> isl (handler cfg req)"
  shows "map admitted (fst (run cfg evs w)) = map (\<lambda>i. count e + int i < max_cfg cfg) [0..<length evs]"
  using assms
proof (induction evs arbitrary: w e)
  case Nil
  then show ?case by simp
next
  case (Cons a evs)
  obtain ev req where a: "a = (ev, req)" by (cases a)
  from Cons.prems(2) a obtain h where
    hd: "\<not> connected ev" "key_of cfg req = Some k" "now ev - startTime e \<le> windowMs cfg"
        "handler cfg req = Inr h"
    by (cases "handler cfg req") auto
  from Cons.prems(2) have tl: "\<forall>(ev, req) \<in> set evs. \<not> connected ev \<and> key_of cfg req = Some k
           \<and> now ev - startTime e \<le> windowMs cfg \<and> \<not> isl (handler cfg req)"
    by simp
  show ?case
  proof (cases "count e < max_cfg cfg")
    case True
    let ?e' = "e\<lparr> count := count e + 1 \<rparr>"
    let ?w' = "w\<lparr> inMemoryCache := (inMemoryCache w)(k \<mapsto> ?e') \<rparr>"
    have step: "middleware cfg ev req w = (Proceed, ?w')"
      using mem_admit[OF hd(1,2) Cons.prems(1) hd(3) True] .
    have "map admitted (fst (run cfg evs ?w')) = map (\<lambda>i. count ?e' + int i < max_cfg cfg) [0..<length evs]"
      by (rule Cons.IH) (use tl in auto)
    then show ?thesis
      using True by (simp add: a step upt_shift fst_run_Cons algebra_simps del: upt_Suc run.simps)
  next
    case False
    have step: "middleware cfg ev req w = (Exceeded h, w)"
      using mem_reject[OF hd(1,2) Cons.prems(1) hd(3) _ hd(4)] False by simp
    have "map admitted (fst (run cfg evs w)) = map (\<lambda>i. count e + int i < max_cfg cfg) [0..<length evs]"
      by (rule Cons.IH[OF Cons.prems(1) tl])
    then show ?thesis
      using False by (simp add: a step upt_shift fst_run_Cons del: upt_Suc run.simps)
  qed
qed

text \<open>
  The same on the store, as long as the key's deadline lies at or after the end \<open>T\<close> of
  the window: every admitted request moves the deadline to \<open>windowMs\<close> after itself,
  which is no earlier than \<open>T\<close>.
\<close>

lemma store_burst:
  assumes "redis w k = Some e" "deadline e = Some d" "T \<le> d" "0 < windowMs cfg"
    and "\<forall>(ev, req) \<in> set evs. connected ev \<and> fault ev = NoFault \<and> key_of cfg req = Some k
           \<and> now ev \<le> T \<and> T \<le> now ev + windowMs cfg \<and> \<not> isl (handler cfg req)"
  shows "map admitted (fst (run cfg evs w)) = map (\<lambda>i. val e + int i < max_cfg cfg) [0..<length evs]"
  using assms
proof (induction evs arbitrary: w e d)
  case Nil
  then show ?case by simp
next
  case (Cons a evs)
  obtain ev req where a: "a = (ev, req)" by (cases a)
  from Cons.prems(5) a obtain h where
    hd: "connected ev" "fault ev = NoFault" "key_of cfg req = Some k" "now ev \<le> T"
        "T \<le> now ev + windowMs cfg" "handler cfg req = Inr h"
    by (cases "handler cfg req") auto
  from Cons.prems(5) have tl: "\<forall>(ev, req) \<in> set evs. connected ev \<and> fault ev = NoFault
           \<and> key_of cfg req = Some k \<and> now ev \<le> T \<and> T \<le> now ev + windowMs cfg
           \<and> \<not> isl (handler cfg req)"
    by simp
  have lv: "live (now ev) (redis w) k = Some e"
    using Cons.prems(1,2,3) hd(4) by (simp add: live_def)
  show ?case
  proof (cases "val e < max_cfg cfg")
    case True
    let ?e' = "e\<lparr> val := val e + 1, deadline := Some (now ev + windowMs cfg) \<rparr>"
    let ?w' = "w\<lparr> redis := (redis w)(k \<mapsto> ?e') \<rparr>"
    have step: "middleware cfg ev req w = (Proceed, ?w')"
      using store_admit[OF hd(1,2,3) lv True Cons.prems(4)] .
    have "map admitted (fst (run cfg evs ?w')) = map (\<lambda>i. val ?e' + int i < max_cfg cfg) [0..<length evs]"
      by (rule Cons.IH[where d = "now ev + windowMs cfg"]) (use tl hd(5) Cons.prems(4) in auto)
    then show ?thesis
      using True by (simp add: a step upt_shift fst_run_Cons algebra_simps del: upt_Suc run.simps)
  next
    case False
    have step: "middleware cfg ev req w = (Exceeded h, w)"
      using store_reject[OF hd(1,2,3) lv _ hd(6)] False by simp
    have "map admitted (fst (run cfg evs w)) = map (\<lambda>i. val e + int i < max_cfg cfg) [0..<length evs]"
      by (rule Cons.IH[OF Cons.prems(1,2,3,4) tl])
    then show ?thesis
      using False by (simp add: a step upt_shift fst_run_Cons del: upt_Suc run.simps)
  qed
qed

text \<open>From nothing, on either backend: request number \<open>i\<close> (from 0) is admitted iff \<open>i < max\<close>.\<close>

lemma burst_decisions:
  assumes cfg: "0 < max_cfg cfg" "0 < windowMs cfg"
    and fresh: "inMemoryCache w k = None" "redis w k = None"
    and b: "burst cfg k b evs"
  shows "map admitted (fst (run cfg evs w)) = map (\<lambda>i. int i < max_cfg cfg) [0..<length evs]"
proof (cases evs)
  case Nil
  then show ?thesis by simp
next
  case (Cons a rest)
  obtain ev req where a: "a = (ev, req)" by (cases a)
  have all: "\<forall>(ev', req') \<in> set evs.
        connected ev' = b \<and> fault ev' = NoFault \<and> key_of cfg req' = Some k
        \<and> now ev \<le> now ev' \<and> now ev' \<le> now ev + windowMs cfg
        \<and> \<not> isl (handler cfg req')"
    using b by (simp add: burst_def Cons a)
  then have hd: "connected ev = b" "fault ev = NoFault" "key_of cfg req = Some k"
    by (auto simp: Cons a)
  show ?thesis
  proof (cases b)
    case False
    let ?e = "\<lparr> count = 1, startTime = now ev \<rparr>"
    let ?w' = "w\<lparr> inMemoryCache := (inMemoryCache w)(k \<mapsto> ?e) \<rparr>"
    have step: "middleware cfg ev req w = (Proceed, ?w')"
      using mem_first[OF _ hd(3) fresh(1) cfg(1)] hd(1) False by simp
    have "map admitted (fst (run cfg rest ?w')) = map (\<lambda>i. count ?e + int i < max_cfg cfg) [0..<length rest]"
      by (rule mem_burst) (use all False in \<open>auto simp: Cons a\<close>)
    then show ?thesis
      using cfg(1) by (simp add: Cons a step upt_shift fst_run_Cons del: upt_Suc run.simps)
  next
    case True
    let ?e = "\<lparr> val = 1, deadline = Some (now ev + windowMs cfg) \<rparr>"
    let ?w' = "w\<lparr> redis := (redis w)(k \<mapsto> ?e) \<rparr>"
    have step: "middleware cfg ev req w = (Proceed, ?w')"
      using store_first[OF _ hd(2,3) _ cfg(2)] hd(1) True fresh(2) by (simp add: live_def)
    have "map admitted (fst (run cfg rest ?w')) = map (\<lambda>i. val ?e + int i < max_cfg cfg) [0..<length rest]"
      by (rule store_burst[where d = "now ev + windowMs cfg" and T = "now ev + windowMs cfg"])
         (use all True cfg(2) in \<open>auto simp: Cons a\<close>)
    then show ?thesis
      using cfg(1) by (simp add: Cons a step upt_shift fst_run_Cons del: upt_Suc run.simps)
  qed
qed

lemma burst_arrivals:
  assumes "in_window cfg k trs"
  shows "burst cfg k b (arrivals b trs)"
proof (cases trs)
  case Nil
  then show ?thesis by (simp add: burst_def arrivals_def)
next
  case (Cons a rest)
  have "now (fst (hd (arrivals b trs))) = fst (hd trs)"
    by (simp add: Cons arrivals_def at_time_def split: prod.splits)
  then show ?thesis
    using assms by (auto simp: burst_def in_window_def arrivals_def at_time_def)
qed

lemma window_decisions:
  assumes "0 < max_cfg cfg" "0 < windowMs cfg"
    and "inMemoryCache w k = None" "redis w k = None"
    and "in_window cfg k trs"
  shows "map admitted (fst (run cfg (arrivals b trs) w)) = map (\<lambda>i. int i < max_cfg cfg) [0..<length trs]"
  using burst_decisions[OF assms(1-4) burst_arrivals[OF assms(5)], of b]
  by (simp add: arrivals_def)


section \<open>The claims\<close>



text \<open>
  Against C2 as worded: with \<open>max = 2\<close> and \<open>windowMs = 1000\<close>, a third request that
  arrives exactly 1000 ms after the window's start, when \<open>windowMs\<close> milliseconds have
  elapsed, is still rejected; line 62 resets only when strictly more has elapsed.
\<close>

theorem rollover_boundary_counterexample:
  "map admitted (fst (run (limiter 1000 2)
      (arrivals False [(0, from_ip ''K''), (100, from_ip ''K''), (1000, from_ip ''K'')]) empty_world))
   = [True, True, False]"
  by (simp add: eval_defs)

text \<open>
  C2, amended. On the in-memory fallback with a positive \<open>max\<close>, once more than
  \<open>windowMs\<close> milliseconds have elapsed since the start of a key's window, the next
  request for that key is admitted whatever the old count was: the entry is reset to
  count 0 with \<open>startTime = now\<close> and then counted, so it is left at count 1. With
  \<open>max = 2\<close>, \<open>windowMs = 1000\<close> and requests for one key at 0, 100, 200 and 1100 ms the
  outcomes are admitted, admitted, rejected, admitted.
\<close>

theorem window_rollover:
  "(\<not> connected ev \<and> key_of cfg req = Some k \<and> inMemoryCache w k = Some e
      \<and> now ev - startTime e > windowMs cfg \<and> 0 < max_cfg cfg \<longrightarrow>
      middleware cfg ev req w =
        (Proceed, w\<lparr> inMemoryCache := (inMemoryCache w)(k \<mapsto> \<lparr> count = 0 + 1, startTime = now ev \<rparr>) \<rparr>))
   \<and> map admitted (fst (run (limiter 1000 2)
        (arrivals False [(0, from_ip ''K''), (100, from_ip ''K''), (200, from_ip ''K''), (1100, from_ip ''K'')])
        empty_world))
     = [True, True, False, True]"
proof (intro conjI impI)
  assume "\<not> connected ev \<and> key_of cfg req = Some k \<and> inMemoryCache w k = Some e
      \<and> now ev - startTime e > windowMs cfg \<and> 0 < max_cfg cfg"
  then show "middleware cfg ev req w =
        (Proceed, w\<lparr> inMemoryCache := (inMemoryCache w)(k \<mapsto> \<lparr> count = 0 + 1, startTime = now ev \<rparr>) \<rparr>)"
    using mem_rollover[of ev cfg req k w e] by simp
next
  show "map admitted (fst (run (limiter 1000 2)
        (arrivals False [(0, from_ip ''K''), (100, from_ip ''K''), (200, from_ip ''K''), (1100, from_ip ''K'')])
        empty_world))
     = [True, True, False, True]"
    by (simp add: eval_defs)
qed

theorem window_rollover_witness:
  "\<not> connected (at_time False 1100) \<and> key_of (limiter 1000 2) (from_ip ''K'') = Some ''ratelimit:K''
   \<and> inMemoryCache (empty_world\<lparr> inMemoryCache := [''ratelimit:K'' \<mapsto> \<lparr> count = 2, startTime = 0 \<rparr>] \<rparr>)
        ''ratelimit:K'' = Some \<lparr> count = 2, startTime = 0 \<rparr>
   \<and> now (at_time False 1100) - startTime \<lparr> count = 2, startTime = 0 \<rparr> > windowMs (limiter 1000 2)
   \<and> 0 < max_cfg (limiter 1000 2)
   \<and> middleware (limiter 1000 2) (at_time False 1100) (from_ip ''K'')
        (empty_world\<lparr> inMemoryCache := [''ratelimit:K'' \<mapsto> \<lparr> count = 2, startTime = 0 \<rparr>] \<rparr>)
      = (Proceed, empty_world\<lparr> inMemoryCache := [''ratelimit:K'' \<mapsto> \<lparr> count = 1, startTime = 1100 \<rparr>] \<rparr>)"
  using window_rollover[of "at_time False 1100" "limiter 1000 2" "from_ip ''K''" "''ratelimit:K''"
      "empty_world\<lparr> inMemoryCache := [''ratelimit:K'' \<mapsto> \<lparr> count = 2, startTime = 0 \<rparr>] \<rparr>"
      "\<lparr> count = 2, startTime = 0 \<rparr>"]
  by (simp add: eval_defs)

text \<open>
  C3. When a call to the shared store raises during an invocation, be it the \<open>GET\<close> or,
  for a request that is not over the limit, the transaction, the invocation ends in the
  \<open>catch\<close>: the error is written to the console and \<open>next()\<close> is called, so the request
  is admitted and nothing is thrown to the caller. (The fallback's \<open>Map\<close> operations
  raise nothing.)
\<close>

theorem fail_open:
  assumes "keyGenerator cfg req = Inr g" "connected ev"
  shows "(redis_get ev (''ratelimit:'' @ g) (redis w) = Inl e \<longrightarrow>
            middleware cfg ev req w = (FailOpen e, w))
       \<and> (redis_get ev (''ratelimit:'' @ g) (redis w) = Inr c
            \<and> \<not> (case c of None \<Rightarrow> False | Some n \<Rightarrow> n \<ge> max_cfg cfg)
            \<and> fst (multi_incr_expire_exec ev (''ratelimit:'' @ g) (of_int (windowMs cfg) / 1000) (redis w)) = Inl e \<longrightarrow>
            fst (middleware cfg ev req w) = FailOpen e \<and> admitted (fst (middleware cfg ev req w)))"
  by (simp add: middleware_def body_store[OF assms] split: prod.splits)

theorem fail_open_witness:
  "keyGenerator (limiter 1000 2) (from_ip ''K'') = Inr ''K''
   \<and> connected (failing (GetFails (TypeError ''socket closed'')) 0)
   \<and> redis_get (failing (GetFails (TypeError ''socket closed'')) 0) ''ratelimit:K'' (redis empty_world)
        = Inl (TypeError ''socket closed'')
   \<and> middleware (limiter 1000 2) (failing (GetFails (TypeError ''socket closed'')) 0) (from_ip ''K'') empty_world
        = (FailOpen (TypeError ''socket closed''), empty_world)
   \<and> redis_get (failing (ExecFails (TypeError ''socket closed'')) 0) ''ratelimit:K'' (redis empty_world) = Inr None
   \<and> fst (multi_incr_expire_exec (failing (ExecFails (TypeError ''socket closed'')) 0) ''ratelimit:K''
             (of_int (windowMs (limiter 1000 2)) / 1000) (redis empty_world)) = Inl (TypeError ''socket closed'')
   \<and> fst (middleware (limiter 1000 2) (failing (ExecFails (TypeError ''socket closed'')) 0) (from_ip ''K'') empty_world)
        = FailOpen (TypeError ''socket closed'')"
  using fail_open[of "limiter 1000 2" "from_ip ''K''" "''K''" "failing (GetFails (TypeError ''socket closed'')) 0"
          empty_world "TypeError ''socket closed''" None]
        fail_open[of "limiter 1000 2" "from_ip ''K''" "''K''" "failing (ExecFails (TypeError ''socket closed'')) 0"
          empty_world "TypeError ''socket closed''" None]
  by (simp add: eval_defs)



text \<open>
  Inside one window the two backends decide alike: for a configuration with positive
  \<open>max\<close> and \<open>windowMs\<close> and requests for one key that stay within one window, both
  backends holding nothing for the key beforehand, no store call failing and the
  handler returning.
\<close>

lemma backends_agree_in_window:
  assumes "0 < max_cfg cfg" "0 < windowMs cfg"
    and "inMemoryCache w k = None" "redis w k = None"
    and "in_window cfg k trs"
  shows "map admitted (fst (run cfg (arrivals True trs) w))
       = map admitted (fst (run cfg (arrivals False trs) w))"
  using window_decisions[OF assms, of True] window_decisions[OF assms, of False] by simp


text \<open>
  Against C6 as worded: \<open>rateLimiter({ windowMs: -1000, max: 0 })\<close> raises nothing and
  returns the limiter with exactly these values.
\<close>

theorem misconfiguration_counterexample:
  "rateLimiter [] (Obj \<lparr> windowMs_opt = Some (- 1000), max_opt = Some 0,
                         keyGenerator_opt = None, handler_opt = None \<rparr>)
   = Inr \<lparr> windowMs = - 1000, max_cfg = 0, keyGenerator = default_keyGenerator,
           handler = default_handler [] \<rparr>"
  by (simp add: rateLimiter_def)

text \<open>
  C6, amended. \<open>rateLimiter\<close> checks neither \<open>max\<close> nor \<open>windowMs\<close>: for every options
  object, non-positive values included, construction succeeds and the limiter carries
  the values given (or the defaults 60000 and 60). A non-positive \<open>max\<close> shows at
  request time only: on the in-memory fallback, whose counts are never negative, every
  request with such a limiter ends in the handler.
\<close>

theorem construction_unchecked:
  "(\<exists>cfg. rateLimiter frames (Obj opts) = Inr cfg
        \<and> windowMs cfg = (case windowMs_opt opts of None \<Rightarrow> 60000 | Some x \<Rightarrow> x)
        \<and> max_cfg cfg = (case max_opt opts of None \<Rightarrow> 60 | Some m \<Rightarrow> m))
   \<and> (max_cfg cfg \<le> 0 \<and> \<not> connected ev \<and> key_of cfg req = Some k
        \<and> (case inMemoryCache w k of None \<Rightarrow> True | Some e \<Rightarrow> 0 \<le> count e) \<longrightarrow>
        fst (middleware cfg ev req w) =
          (case handler cfg req of Inl e \<Rightarrow> FailOpen e | Inr h \<Rightarrow> Exceeded h))"
proof (intro conjI impI)
  show "\<exists>cfg. rateLimiter frames (Obj opts) = Inr cfg
        \<and> windowMs cfg = (case windowMs_opt opts of None \<Rightarrow> 60000 | Some x \<Rightarrow> x)
        \<and> max_cfg cfg = (case max_opt opts of None \<Rightarrow> 60 | Some m \<Rightarrow> m)"
    by (simp add: rateLimiter_def split: option.splits)
next
  assume a: "max_cfg cfg \<le> 0 \<and> \<not> connected ev \<and> key_of cfg req = Some k
        \<and> (case inMemoryCache w k of None \<Rightarrow> True | Some e \<Rightarrow> 0 \<le> count e)"
  then obtain g where g: "keyGenerator cfg req = Inr g"
    by (auto simp: key_of_def split: sum.splits)
  from a have nc: "\<not> connected ev" by simp
  show "fst (middleware cfg ev req w) =
          (case handler cfg req of Inl e \<Rightarrow> FailOpen e | Inr h \<Rightarrow> Exceeded h)"
    using a g unfolding middleware_fst body_mem[OF g nc] Let_def
    by (auto simp: invoke_handler_def key_of_def split: option.splits sum.splits)
qed

theorem construction_unchecked_witness:
  "max_cfg (limiter 1000 0) \<le> 0 \<and> \<not> connected (at_time False 7)
   \<and> key_of (limiter 1000 0) (from_ip ''K'') = Some ''ratelimit:K''
   \<and> (case inMemoryCache empty_world ''ratelimit:K'' of None \<Rightarrow> True | Some e \<Rightarrow> 0 \<le> count e)
   \<and> rateLimiter [] (Obj \<lparr> windowMs_opt = Some 1000, max_opt = Some 0,
                            keyGenerator_opt = None, handler_opt = None \<rparr>) = Inr (limiter 1000 0)
   \<and> fst (middleware (limiter 1000 0) (at_time False 7) (from_ip ''K'') empty_world)
      = Exceeded (PassedToNext (AppError [] ''Too many requests, please try again later'' 429
                                   (Some ''rate_limit_error'') None))"
  using construction_unchecked[of "[]" "\<lparr> windowMs_opt = Some 1000, max_opt = Some 0,
                            keyGenerator_opt = None, handler_opt = None \<rparr>"
          "limiter 1000 0" "at_time False 7" "from_ip ''K''" "''ratelimit:K''" empty_world]
  by (simp add: eval_defs rateLimiter_def)

subsection \<open>Independence of keys\<close>

lemma live_cong: "s1 k = s2 k \<Longrightarrow> live t s1 k = live t s2 k"
  by (simp add: live_def)

lemma incr_same: "s1 k = s2 k \<Longrightarrow> incr t k s1 k = incr t k s2 k"
  by (simp add: incr_def live_def split: option.splits)

lemma expire_same: "s1 k = s2 k \<Longrightarrow> expire t k x s1 k = expire t k x s2 k"
  by (simp add: expire_def live_def split: option.splits)

lemma redis_get_cong:
  assumes "s1 k = s2 k"
  shows "redis_get ev k s1 = redis_get ev k s2"
  unfolding redis_get_def live_cong[of s1 k s2 "now ev", OF assms] ..

lemma exec_fst: "fst (multi_incr_expire_exec ev k x s1) = fst (multi_incr_expire_exec ev k x s2)"
  by (simp add: multi_incr_expire_exec_def Let_def split: fault.splits)

lemma exec_same:
  assumes "s1 k = s2 k"
  shows "snd (multi_incr_expire_exec ev k x s1) k = snd (multi_incr_expire_exec ev k x s2) k"
proof -
  have "incr (now ev) k s1 k = incr (now ev) k s2 k"
    by (rule incr_same[of s1 k s2, OF assms])
  then have "expire (now ev) k x (incr (now ev) k s1) k = expire (now ev) k x (incr (now ev) k s2) k"
    by (rule expire_same[of "incr (now ev) k s1" k "incr (now ev) k s2"])
  then show ?thesis
    using assms by (simp add: multi_incr_expire_exec_def Let_def split: fault.splits)
qed

lemma incr_other: "k' \<noteq> k \<Longrightarrow> incr t k s k' = s k'"
  by (simp add: incr_def split: option.splits)

lemma expire_other: "k' \<noteq> k \<Longrightarrow> expire t k x s k' = s k'"
  by (simp add: expire_def split: option.splits)

lemma exec_other: "k' \<noteq> k \<Longrightarrow> snd (multi_incr_expire_exec ev k x s) k' = s k'"
  by (simp add: multi_incr_expire_exec_def Let_def incr_other expire_other split: fault.splits)

text \<open>An invocation leaves every other key's state alone.\<close>

lemma body_frame:
  assumes "key_of cfg req \<noteq> Some k"
  shows "inMemoryCache (snd (limiter_body cfg ev req w)) k = inMemoryCache w k
       \<and> redis (snd (limiter_body cfg ev req w)) k = redis w k"
proof (cases "keyGenerator cfg req")
  case (Inl e)
  then show ?thesis by (simp add: limiter_body_def)
next
  case (Inr g)
  with assms have k: "k \<noteq> ''ratelimit:'' @ g" by (auto simp: key_of_def)
  show ?thesis
  proof (cases "connected ev")
    case True
    show ?thesis
      unfolding body_store[OF Inr True]
      using k exec_other[OF k] by (simp split: sum.splits option.splits)
  next
    case False
    show ?thesis
      unfolding body_mem[OF Inr False] Let_def
      using k by (simp split: option.splits)
  qed
qed

lemma step_frame:
  assumes "key_of cfg req \<noteq> Some k"
  shows "inMemoryCache (snd (middleware cfg ev req w)) k = inMemoryCache w k
       \<and> redis (snd (middleware cfg ev req w)) k = redis w k"
  using body_frame[OF assms, of ev w] by (simp add: middleware_snd)

text \<open>Its outcome and its effect on its own key depend on that key's state only.\<close>

lemma body_local:
  assumes "key_of cfg req = Some k" "inMemoryCache w1 k = inMemoryCache w2 k" "redis w1 k = redis w2 k"
  shows "fst (limiter_body cfg ev req w1) = fst (limiter_body cfg ev req w2)
       \<and> inMemoryCache (snd (limiter_body cfg ev req w1)) k = inMemoryCache (snd (limiter_body cfg ev req w2)) k
       \<and> redis (snd (limiter_body cfg ev req w1)) k = redis (snd (limiter_body cfg ev req w2)) k"
proof -
  from assms(1) obtain g where g: "keyGenerator cfg req = Inr g" and k: "k = ''ratelimit:'' @ g"
    by (auto simp: key_of_def split: sum.splits)
  show ?thesis
  proof (cases "connected ev")
    case True
    have get: "redis_get ev k (redis w1) = redis_get ev k (redis w2)"
      by (rule redis_get_cong[of "redis w1" k "redis w2", OF assms(3)])
    have ex1: "fst (multi_incr_expire_exec ev k x (redis w1)) = fst (multi_incr_expire_exec ev k x (redis w2))" for x
      by (rule exec_fst)
    have ex2: "snd (multi_incr_expire_exec ev k x (redis w1)) k = snd (multi_incr_expire_exec ev k x (redis w2)) k" for x
      by (rule exec_same[of "redis w1" k "redis w2", OF assms(3)])
    show ?thesis
      unfolding body_store[OF g True] k[symmetric] get ex1
      using assms(2,3) ex2 by (simp split: sum.splits option.splits)
  next
    case False
    show ?thesis
      unfolding body_mem[OF g False] k[symmetric] Let_def
      using assms(2,3) by (simp split: option.splits)
  qed
qed

lemma step_local:
  assumes "key_of cfg req = Some k" "inMemoryCache w1 k = inMemoryCache w2 k" "redis w1 k = redis w2 k"
  shows "fst (middleware cfg ev req w1) = fst (middleware cfg ev req w2)
       \<and> inMemoryCache (snd (middleware cfg ev req w1)) k = inMemoryCache (snd (middleware cfg ev req w2)) k
       \<and> redis (snd (middleware cfg ev req w1)) k = redis (snd (middleware cfg ev req w2)) k"
  using body_local[OF assms, of ev] by (simp add: middleware_fst middleware_snd)

lemma decisions_for_Cons:
  "decisions_for cfg k ((ev, req) # rest) w =
     (if key_of cfg req = Some k then [fst (middleware cfg ev req w)] else [])
     @ decisions_for cfg k rest (snd (middleware cfg ev req w))"
  by (simp add: decisions_for_def fst_run_Cons del: run.simps)

text \<open>
  The outcomes a run gives to the requests of one key are those of the run from which
  every other request has been removed.
\<close>

lemma projection:
  assumes "inMemoryCache w1 k = inMemoryCache w2 k" "redis w1 k = redis w2 k"
  shows "decisions_for cfg k evs w1 = fst (run cfg (for_key cfg k evs) w2)"
  using assms
proof (induction evs arbitrary: w1 w2)
  case Nil
  then show ?case by (simp add: decisions_for_def for_key_def)
next
  case (Cons a evs)
  obtain ev req where a: "a = (ev, req)" by (cases a)
  show ?case
  proof (cases "key_of cfg req = Some k")
    case True
    note loc = step_local[OF True Cons.prems, of ev]
    have "decisions_for cfg k evs (snd (middleware cfg ev req w1))
            = fst (run cfg (for_key cfg k evs) (snd (middleware cfg ev req w2)))"
      by (rule Cons.IH) (use loc in auto)
    then show ?thesis
      using True loc by (simp add: a decisions_for_Cons for_key_def fst_run_Cons del: run.simps)
  next
    case False
    note fr = step_frame[OF False, of ev w1]
    have "decisions_for cfg k evs (snd (middleware cfg ev req w1)) = fst (run cfg (for_key cfg k evs) w2)"
      by (rule Cons.IH) (use fr Cons.prems in auto)
    then show ?thesis
      using False by (simp add: a decisions_for_Cons for_key_def del: run.simps)
  qed
qed

text \<open>
  C7. A request whose key is not \<open>k\<close> (or whose key generator throws) changes neither
  the fallback's entry for \<open>k\<close>, count and window start, nor the store's entry for \<open>k\<close>,
  and a request for \<open>k\<close> that follows gets the outcome it would have got without it;
  this on either backend and whatever fails. Hence two runs from the same state whose
  traffic for \<open>k\<close> is the same give the requests for \<open>k\<close> the same outcomes, however
  their traffic for other keys differs.
\<close>

theorem keys_independent:
  "(key_of cfg req \<noteq> Some k \<longrightarrow>
      inMemoryCache (snd (middleware cfg ev req w)) k = inMemoryCache w k
      \<and> redis (snd (middleware cfg ev req w)) k = redis w k
      \<and> (key_of cfg req' = Some k \<longrightarrow>
           fst (middleware cfg ev' req' (snd (middleware cfg ev req w))) = fst (middleware cfg ev' req' w)))
   \<and> (for_key cfg k evs1 = for_key cfg k evs2 \<longrightarrow>
        decisions_for cfg k evs1 w = decisions_for cfg k evs2 w)"
proof (intro conjI impI)
  assume other: "key_of cfg req \<noteq> Some k"
  show "inMemoryCache (snd (middleware cfg ev req w)) k = inMemoryCache w k"
    and "redis (snd (middleware cfg ev req w)) k = redis w k"
    using step_frame[OF other] by auto
next
  assume other: "key_of cfg req \<noteq> Some k" and same: "key_of cfg req' = Some k"
  show "fst (middleware cfg ev' req' (snd (middleware cfg ev req w))) = fst (middleware cfg ev' req' w)"
    using step_local[OF same, of "snd (middleware cfg ev req w)" w ev'] step_frame[OF other, of ev w]
    by simp
next
  assume "for_key cfg k evs1 = for_key cfg k evs2"
  then show "decisions_for cfg k evs1 w = decisions_for cfg k evs2 w"
    using projection[of w k w cfg evs1] projection[of w k w cfg evs2] by simp
qed

theorem keys_independent_witness:
  "key_of (limiter 1000 1) (from_ip ''A'') \<noteq> Some ''ratelimit:B''
   \<and> key_of (limiter 1000 1) (from_ip ''B'') = Some ''ratelimit:B''
   \<and> redis (snd (middleware (limiter 1000 1) (at_time True 0) (from_ip ''A'') empty_world)) ''ratelimit:B'' = None
   \<and> inMemoryCache (snd (middleware (limiter 1000 1) (at_time False 0) (from_ip ''A'') empty_world)) ''ratelimit:B'' = None
   \<and> fst (middleware (limiter 1000 1) (at_time False 1) (from_ip ''B'')
             (snd (middleware (limiter 1000 1) (at_time False 0) (from_ip ''A'') empty_world))) = Proceed
   \<and> for_key (limiter 1000 1) ''ratelimit:B''
        [(at_time False 0, from_ip ''B''), (at_time False 1, from_ip ''A''), (at_time False 2, from_ip ''B'')]
      = for_key (limiter 1000 1) ''ratelimit:B''
        [(at_time False 0, from_ip ''B''), (at_time False 2, from_ip ''B'')]
   \<and> decisions_for (limiter 1000 1) ''ratelimit:B''
        [(at_time False 0, from_ip ''B''), (at_time False 1, from_ip ''A''), (at_time False 2, from_ip ''B'')] empty_world
      = decisions_for (limiter 1000 1) ''ratelimit:B''
        [(at_time False 0, from_ip ''B''), (at_time False 2, from_ip ''B'')] empty_world"
  using keys_independent[of "limiter 1000 1" "from_ip ''A''" "''ratelimit:B''" "at_time True 0" empty_world
          "from_ip ''B''" "at_time False 1"
          "[(at_time False 0, from_ip ''B''), (at_time False 1, from_ip ''A''), (at_time False 2, from_ip ''B'')]"
          "[(at_time False 0, from_ip ''B''), (at_time False 2, from_ip ''B'')]"]
        keys_independent[of "limiter 1000 1" "from_ip ''A''" "''ratelimit:B''" "at_time False 0" empty_world
          "from_ip ''B''" "at_time False 1" "[]" "[]"]
  by (simp add: eval_defs for_key_def)

subsection \<open>The handler's part in the outcome\<close>

lemma body_exceeded:
  assumes "fst (limiter_body cfg ev req w) = Inr (Exceeded h)"
  shows "handler cfg req = Inr h"
proof (cases "keyGenerator cfg req")
  case (Inl e)
  with assms show ?thesis by (simp add: limiter_body_def)
next
  case (Inr g)
  have ih: "invoke_handler cfg req = Inr (Exceeded h) \<Longrightarrow> handler cfg req = Inr h"
    by (cases "handler cfg req") (simp_all add: invoke_handler_def)
  show ?thesis
  proof (cases "connected ev")
    case True
    show ?thesis using assms ih unfolding body_store[OF Inr True]
      by (simp split: sum.splits option.splits if_splits)
  next
    case False
    show ?thesis using assms ih unfolding body_mem[OF Inr False] Let_def
      by (simp split: sum.splits option.splits if_splits)
  qed
qed


text \<open>
  Against C8 as worded: with \<open>NODE_ENV\<close> set to \<open>development\<close> the body that
  \<open>errorHandler\<close> sends for the default handler's error is not the one of the claim;
  lines 89 to 91 add the error's stack to it.
\<close>

theorem rejection_body_counterexample:
  "errorHandler (Some ''development'')
     (AppError [] ''Too many requests, please try again later'' 429 (Some ''rate_limit_error'') None)
   \<noteq> Inr \<lparr> status = 429,
            body = \<lparr> bodyType = ''rate_limit_error'',
                     bodyMessage = ''Too many requests, please try again later'',
                     details = None, bodyStack = None \<rparr> \<rparr>"
  by (simp add: errorHandler_def AppError_def respond_def)

text \<open>
  C8, amended. With the default handler every rejected request passes to \<open>next\<close> an
  error, which reaches \<open>errorHandler\<close> (app.js mounts it last), and from which
  \<open>errorHandler\<close> makes status 429 and, unless \<open>NODE_ENV\<close> is
  \<open>development\<close>, the body \<open>{ error: { type: "rate_limit_error", message: "Too many
  requests, please try again later" } }\<close>; in development the same body carries in
  addition the error's stack, which is always present.
\<close>

theorem default_rejection:
  assumes "handler cfg = default_handler frames"
    and "fst (middleware cfg ev req w) = Exceeded h"
  shows "\<exists>err. h = PassedToNext err
          \<and> errorHandler nodeEnv err =
              Inr \<lparr> status = 429,
                    body = \<lparr> bodyType = ''rate_limit_error'',
                             bodyMessage = ''Too many requests, please try again later'',
                             details = None,
                             bodyStack = (if nodeEnv = Some ''development'' then stack err else None) \<rparr> \<rparr>
          \<and> stack err \<noteq> None"
proof -
  from assms(2) have "fst (limiter_body cfg ev req w) = Inr (Exceeded h)"
    by (auto simp: middleware_fst split: sum.splits)
  from body_exceeded[OF this] assms(1)
  have h: "h = PassedToNext (AppError frames ''Too many requests, please try again later'' 429
               (Some ''rate_limit_error'') None)"
    by (simp add: default_handler_def)
  show ?thesis
    unfolding h by (simp add: errorHandler_def AppError_def respond_def)
qed

theorem default_rejection_witness:
  "handler (limiter 1000 0) = default_handler []
   \<and> fst (middleware (limiter 1000 0) (at_time False 7) (from_ip ''K'') empty_world)
      = Exceeded (PassedToNext (AppError [] ''Too many requests, please try again later'' 429
                                   (Some ''rate_limit_error'') None))
   \<and> errorHandler (Some ''production'')
        (AppError [] ''Too many requests, please try again later'' 429 (Some ''rate_limit_error'') None)
      = Inr \<lparr> status = 429,
              body = \<lparr> bodyType = ''rate_limit_error'',
                       bodyMessage = ''Too many requests, please try again later'',
                       details = None, bodyStack = None \<rparr> \<rparr>"
  using default_rejection[of "limiter 1000 0" "[]" "at_time False 7" "from_ip ''K''" empty_world
          "PassedToNext (AppError [] ''Too many requests, please try again later'' 429 (Some ''rate_limit_error'') None)"
          "Some ''production''"]
  by (simp add: eval_defs)

subsection \<open>The bound on the counts\<close>








end
